theory Spec2Isabelle
  imports Main
begin

section \<open>TuneLite: the training loop of \<open>ColossalaiTrainer\<close>\<close>

text \<open>
  The embedding follows \<^verbatim>\<open>tunelite/trainer/colossalai_trainer.py\<close> and the entry point of
  \<^verbatim>\<open>examples/train_colossalai.py\<close>. The distributed engine (forward and backward passes,
  the optimizer, the progress bar) is external; what the trainer itself decides is which
  calls it issues and in which order, so \<open>train\<close> is modelled by the list of calls it makes.
\<close>

subsection \<open>Argument container\<close>

text \<open>
  The integer fields of the dataclass \<open>TrainerArgs\<close> and its list of stop tokens. Python
  integers are unbounded, hence \<open>int\<close>. The three floating-point fields (learning rate,
  top-p, temperature) take no part in any control decision of the trainer and are left out.
\<close>

record TrainerArgs =
  epochs :: int
  eval_per_steps :: int
  eval_per_epoches :: int
  eval_max_length :: int
  eval_stop_tokens :: "int list"

definition default_args :: TrainerArgs where
  "default_args =
     \<lparr>epochs = 10, eval_per_steps = 10, eval_per_epoches = 1,
      eval_max_length = 128, eval_stop_tokens = [2]\<rparr>"

subsection \<open>Calls issued by \<open>train\<close>\<close>

text \<open>
  \<open>EngineStep epoch step\<close> stands for one pass through lines 81 to 89 (zero the gradients,
  run the schedule, \<open>engine.step()\<close>); \<open>Eval epoch step\<close> for one call \<open>self.eval(epoch, step)\<close>
  with these two arguments.
\<close>

datatype event = EngineStep int int | Eval int int

text \<open>
  The body of \<open>train_loop\<close>: \<open>for step, batch in enumerate(tqb, start=1)\<close>. The data loader
  is the list of batches it yields; \<open>step\<close> is the running counter of \<open>enumerate\<close>. The
  three-way test on \<open>eval_per_steps\<close> is kept in the order of the source, the first branch
  being the \<open>continue\<close>.
\<close>

fun train_steps :: "TrainerArgs \<Rightarrow> int \<Rightarrow> int \<Rightarrow> 'b list \<Rightarrow> event list" where
  "train_steps a epoch step [] = []"
| "train_steps a epoch step (batch # rest) =
     EngineStep epoch step #
       (if eval_per_steps a = 0 then train_steps a epoch (step + 1) rest
        else if eval_per_steps a = - 1 then
          Eval epoch step # train_steps a epoch (step + 1) rest
        else if eval_per_steps a > 0 \<and> step mod eval_per_steps a = 0 then
          Eval epoch step # train_steps a epoch (step + 1) rest
        else train_steps a epoch (step + 1) rest)"

definition train_loop :: "TrainerArgs \<Rightarrow> 'b list \<Rightarrow> int \<Rightarrow> event list" where
  "train_loop a dl epoch = train_steps a epoch 1 dl"

text \<open>\<open>range(n)\<close> for a Python integer \<open>n\<close>: empty when \<open>n \<le> 0\<close>.\<close>

definition range_py :: "int \<Rightarrow> int list" where
  "range_py n = map int [0..<nat n]"

text \<open>
  The branch \<open>epochs > 0\<close>: \<open>for epoch in range(epochs)\<close>. The modulo test is on
  \<open>epoch + 1\<close>, the call is \<open>self.eval(epoch, 0)\<close>.
\<close>

fun for_epochs :: "TrainerArgs \<Rightarrow> 'b list \<Rightarrow> int list \<Rightarrow> event list" where
  "for_epochs a dl [] = []"
| "for_epochs a dl (epoch # rest) =
     train_loop a dl epoch @
       (if eval_per_epoches a = 0 then for_epochs a dl rest
        else if eval_per_epoches a = - 1 then Eval epoch 0 # for_epochs a dl rest
        else if eval_per_epoches a > 0 \<and> (epoch + 1) mod eval_per_epoches a = 0 then
          Eval epoch 0 # for_epochs a dl rest
        else for_epochs a dl rest)"

text \<open>
  The branch \<open>epochs == -1\<close>: \<open>while True\<close>. The loop has no exit, so the model is given
  fuel: \<open>forever_epochs a dl fuel epoch\<close> is the list of calls issued by the first \<open>fuel\<close>
  passes through the body, entered with the counter at \<open>epoch\<close>. Here the counter is
  incremented before the test and before the call \<open>self.eval(epoch, 0)\<close>.
\<close>

fun forever_epochs :: "TrainerArgs \<Rightarrow> 'b list \<Rightarrow> nat \<Rightarrow> int \<Rightarrow> event list" where
  "forever_epochs a dl 0 epoch = []"
| "forever_epochs a dl (Suc fuel) epoch =
     train_loop a dl epoch @
       (let epoch' = epoch + 1 in
          if eval_per_epoches a = 0 then forever_epochs a dl fuel epoch'
          else if eval_per_epoches a = - 1 then Eval epoch' 0 # forever_epochs a dl fuel epoch'
          else if eval_per_epoches a > 0 \<and> epoch' mod eval_per_epoches a = 0 then
            Eval epoch' 0 # forever_epochs a dl fuel epoch'
          else forever_epochs a dl fuel epoch')"

text \<open>
  \<open>train\<close>. \<open>Returned evs\<close>: the method has returned after issuing \<open>evs\<close>. \<open>Running evs\<close>:
  the fuel is used up and the method is still inside \<open>while True\<close>, having issued \<open>evs\<close>.
  A value of \<open>epochs\<close> below \<open>-1\<close> matches none of the three tests and falls through.
  The call \<open>self.engine.train()\<close> of line 77 only switches the engine's mode; it is made in
  every case and is not recorded.
\<close>

datatype outcome = Returned "event list" | Running "event list"

definition train :: "TrainerArgs \<Rightarrow> 'b list \<Rightarrow> nat \<Rightarrow> outcome" where
  "train a dl fuel =
     (if epochs a = 0 then Returned []
      else if epochs a = - 1 then Running (forever_epochs a dl fuel 0)
      else if epochs a > 0 then Returned (for_epochs a dl (range_py (epochs a)))
      else Returned [])"

fun calls :: "outcome \<Rightarrow> event list" where
  "calls (Returned evs) = evs"
| "calls (Running evs) = evs"

text \<open>
  The cadence as the specification words it: evaluation is due at count \<open>s\<close> for a period
  \<open>N\<close> when \<open>N = -1\<close>, or \<open>N > 0\<close> and \<open>s mod N = 0\<close>.
\<close>

definition eval_due :: "int \<Rightarrow> int \<Rightarrow> bool" where
  "eval_due N s \<longleftrightarrow> N = - 1 \<or> (N > 0 \<and> s mod N = 0)"

text \<open>What step \<open>s\<close> of an epoch contributes according to the specification.\<close>

definition step_block :: "TrainerArgs \<Rightarrow> int \<Rightarrow> int \<Rightarrow> event list" where
  "step_block a epoch s =
     EngineStep epoch s # (if eval_due (eval_per_steps a) s then [Eval epoch s] else [])"


text \<open>What the \<open>k\<close>-th epoch (counted from 1) contributes in the branch \<open>epochs > 0\<close>
  according to the specification; the source calls \<open>self.eval(k - 1, 0)\<close> there.\<close>

definition for_epoch_block :: "TrainerArgs \<Rightarrow> 'b list \<Rightarrow> int \<Rightarrow> event list" where
  "for_epoch_block a dl k =
     train_loop a dl (k - 1) @
       (if eval_due (eval_per_epoches a) k then [Eval (k - 1) 0] else [])"

text \<open>The same for the branch \<open>epochs == -1\<close>, where the call is \<open>self.eval(k, 0)\<close>.\<close>

definition forever_epoch_block :: "TrainerArgs \<Rightarrow> 'b list \<Rightarrow> int \<Rightarrow> event list" where
  "forever_epoch_block a dl k =
     train_loop a dl (k - 1) @
       (if eval_due (eval_per_epoches a) k then [Eval k 0] else [])"

subsection \<open>Token-by-token generation\<close>

text \<open>
  \<open>generate\<close> reads and writes one entry of the batch, \<open>batch[0]["input_ids"]\<close>, a
  two-dimensional tensor of token ids. It is modelled by its shape and its rows; the
  number of columns is kept apart from the rows so that \<open>shape[1]\<close> is defined for a batch
  without rows too. Token ids are 64-bit in the source; they are only compared, never
  computed with, so \<open>int\<close> serves.
\<close>

record tensor =
  ncols :: nat
  rows :: "int list list"

definition well_shaped :: "tensor \<Rightarrow> bool" where
  "well_shaped t \<longleftrightarrow> list_all (\<lambda>row. length row = ncols t) (rows t)"

text \<open>The entry \<open>t[r, c]\<close>.\<close>

definition cell :: "tensor \<Rightarrow> nat \<Rightarrow> nat \<Rightarrow> int" where
  "cell t r c = rows t ! r ! c"

text \<open>
  Lines 130 to 147: the forward pass of the engine, the argmax on the last pipeline stage
  and the broadcast are external. Their joint result is a tensor \<open>next_tokens\<close> of shape
  \<open>(batch size, 1)\<close>; the model takes it from a parameter \<open>eng\<close>, which is given the loop
  index, the current \<open>input_ids\<close> and the row.
\<close>

type_synonym engine = "nat \<Rightarrow> tensor \<Rightarrow> nat \<Rightarrow> int"

definition next_tokens :: "engine \<Rightarrow> nat \<Rightarrow> tensor \<Rightarrow> int list" where
  "next_tokens eng p t = map (eng p t) [0..<length (rows t)]"

text \<open>Line 149: \<open>torch.cat([input_ids, torch.zeros_like(next_tokens)], dim=1)\<close>.\<close>

definition cat_zero_col :: "tensor \<Rightarrow> tensor" where
  "cat_zero_col t = \<lparr>ncols = Suc (ncols t), rows = map (\<lambda>row. row @ [0]) (rows t)\<rparr>"

text \<open>Line 148: \<open>while current_pos >= input_ids.shape[1]\<close>.\<close>

function pad_cols :: "nat \<Rightarrow> tensor \<Rightarrow> tensor" where
  "pad_cols current_pos t =
     (if current_pos \<ge> ncols t then pad_cols current_pos (cat_zero_col t) else t)"
  by pat_completeness auto
termination
  by (relation "measure (\<lambda>(current_pos, t). Suc current_pos - ncols t)")
     (auto simp: cat_zero_col_def)

declare pad_cols.simps [simp del]

text \<open>
  Line 150: column \<open>current_pos\<close> becomes
  \<open>torch.where(column == 0, next_tokens[:, 0], column)\<close>.
\<close>

definition where_write :: "nat \<Rightarrow> int list \<Rightarrow> tensor \<Rightarrow> tensor" where
  "where_write current_pos nxt t =
     t\<lparr>rows := map (\<lambda>(row, tok).
                    row[current_pos := (if row ! current_pos = 0 then tok else row ! current_pos)])
                  (zip (rows t) nxt)\<rparr>"

text \<open>Lines 152 to 154: the scan of \<open>next_tokens\<close> that raises \<open>StopIteration\<close>.\<close>

fun hits_stop :: "int list \<Rightarrow> int list \<Rightarrow> bool" where
  "hits_stop stop_tokens [] = False"
| "hits_stop stop_tokens (i # rest) =
     (if i \<in> set stop_tokens then True else hits_stop stop_tokens rest)"

text \<open>
  The loop body up to the write of line 150, for the loop index \<open>p\<close>. Line 141 increments
  the local \<open>current_pos\<close>, so the column used is \<open>p + 1\<close>; the \<open>for\<close> statement rebinds the
  variable from \<open>range\<close> at the next pass, so the increment does not skip an index.
\<close>

definition gen_body :: "engine \<Rightarrow> nat \<Rightarrow> tensor \<Rightarrow> int list \<times> tensor" where
  "gen_body eng p t =
     (let nxt = next_tokens eng p t;
          current_pos = p + 1
      in (nxt, where_write current_pos nxt (pad_cols current_pos t)))"

text \<open>
  One record per pass through the body: the column, the tokens after the broadcast and
  \<open>input_ids\<close> after the write. The log is bookkeeping of the model, kept so that statements
  about single passes can be made; \<open>broke\<close> tells whether the loop was left by \<open>break\<close>.
\<close>

record pass =
  column :: nat
  tokens :: "int list"
  ids_after :: tensor

record gen_result =
  final_ids :: tensor
  passes :: "pass list"
  broke :: bool

fun gen_loop :: "engine \<Rightarrow> int list \<Rightarrow> nat list \<Rightarrow> tensor \<Rightarrow> gen_result" where
  "gen_loop eng stop_tokens [] t = \<lparr>final_ids = t, passes = [], broke = False\<rparr>"
| "gen_loop eng stop_tokens (p # ps) t =
     (case gen_body eng p t of (nxt, t') \<Rightarrow>
        let this = \<lparr>column = p + 1, tokens = nxt, ids_after = t'\<rparr> in
        if hits_stop stop_tokens nxt then \<lparr>final_ids = t', passes = [this], broke = True\<rparr>
        else (let r = gen_loop eng stop_tokens ps t' in r\<lparr>passes := this # passes r\<rparr>))"

definition generate_run :: "engine \<Rightarrow> tensor \<Rightarrow> int \<Rightarrow> int list \<Rightarrow> gen_result" where
  "generate_run eng batch max_length stop_tokens =
     gen_loop eng stop_tokens (map nat (range_py max_length)) batch"

definition generate :: "engine \<Rightarrow> tensor \<Rightarrow> int \<Rightarrow> int list \<Rightarrow> tensor" where
  "generate eng batch max_length stop_tokens =
     final_ids (generate_run eng batch max_length stop_tokens)"

text \<open>Passes that reached the end of the body (line 155), that is, were not cut by \<open>break\<close>.\<close>

definition completed :: "gen_result \<Rightarrow> nat" where
  "completed r = (if broke r then length (passes r) - 1 else length (passes r))"

text \<open>\<open>input_ids\<close> on entry to pass number \<open>i\<close> (counted from 0) of a run started on \<open>batch\<close>.\<close>

definition ids_before :: "tensor \<Rightarrow> pass list \<Rightarrow> nat \<Rightarrow> tensor" where
  "ids_before batch ps i = (if i = 0 then batch else ids_after (ps ! (i - 1)))"

text \<open>The entry \<open>t[r, c]\<close> once zero columns have been appended up to column \<open>c\<close>.\<close>

definition padded :: "tensor \<Rightarrow> nat \<Rightarrow> nat \<Rightarrow> int" where
  "padded t r c = (if c < ncols t then cell t r c else 0)"

text \<open>The calls of \<open>generate\<close> made by \<open>eval\<close> (lines 162 to 166), one per evaluation batch.\<close>

definition eval_generate :: "engine \<Rightarrow> TrainerArgs \<Rightarrow> tensor list \<Rightarrow> gen_result list" where
  "eval_generate eng a eval_dl =
     map (\<lambda>batch. generate_run eng batch (eval_max_length a) (eval_stop_tokens a)) eval_dl"

text \<open>A small batch and a stand-in for the engine, used to run the model on.\<close>

definition example_batch :: tensor where
  "example_batch = \<lparr>ncols = 3, rows = [[5, 6, 0], [7, 0, 0]]\<rparr>"

definition example_engine :: engine where
  "example_engine p t r = 10 * int p + int r + 1"

subsection \<open>The entry point of the example script\<close>

















section \<open>Properties\<close>

subsection \<open>The cadence of evaluation in \<open>train\<close>\<close>

lemma eval_due_zero: "\<not> eval_due 0 s"
  by (simp add: eval_due_def)

lemma train_steps_Cons:
  "train_steps a epoch s (batch # rest) =
     step_block a epoch s @ train_steps a epoch (s + 1) rest"
  by (simp add: step_block_def eval_due_def)

lemma train_steps_blocks:
  "train_steps a epoch s dl =
     concat (map (\<lambda>i. step_block a epoch (s + int i)) [0..<length dl])"
proof (induction dl arbitrary: s)
  case Nil
  show ?case by simp
next
  case (Cons batch rest)
  have shift: "[0..<length (batch # rest)] = 0 # map Suc [0..<length rest]"
    by (simp add: upt_conv_Cons map_Suc_upt del: upt_Suc)
  have "(\<lambda>i. step_block a epoch (s + 1 + int i)) = (\<lambda>i. step_block a epoch (s + int (Suc i)))"
    by (rule ext) (simp add: algebra_simps)
  then have tl: "train_steps a epoch (s + 1) rest =
      concat (map (\<lambda>i. step_block a epoch (s + int (Suc i))) [0..<length rest])"
    using Cons.IH [of "s + 1"] by simp
  show ?case
    unfolding shift train_steps_Cons tl
    by (simp add: comp_def del: upt_Suc)
qed

lemma train_loop_blocks:
  "train_loop a dl epoch =
     concat (map (\<lambda>s. step_block a epoch (int s)) [1..<Suc (length dl)])"
proof -
  have "[1..<Suc (length dl)] = map Suc [0..<length dl]"
    by (simp add: map_Suc_upt del: upt_Suc)
  then show ?thesis
    by (simp add: train_loop_def train_steps_blocks comp_def add.commute del: upt_Suc)
qed

lemma Eval_in_train_loop:
  "Eval e s \<in> set (train_loop a dl epoch) \<longleftrightarrow>
     e = epoch \<and> 1 \<le> s \<and> s \<le> int (length dl) \<and> eval_due (eval_per_steps a) s"
proof -
  have "Eval e s \<in> set (train_loop a dl epoch) \<longleftrightarrow>
     (\<exists>n\<in>{1..<Suc (length dl)}. e = epoch \<and> s = int n \<and> eval_due (eval_per_steps a) (int n))"
    by (auto simp add: train_loop_blocks step_block_def simp del: upt_Suc split: if_splits)
  also have "\<dots> \<longleftrightarrow> e = epoch \<and> 1 \<le> s \<and> s \<le> int (length dl) \<and> eval_due (eval_per_steps a) s"
  proof
    assume "\<exists>n\<in>{1..<Suc (length dl)}. e = epoch \<and> s = int n \<and> eval_due (eval_per_steps a) (int n)"
    then show "e = epoch \<and> 1 \<le> s \<and> s \<le> int (length dl) \<and> eval_due (eval_per_steps a) s"
      by auto
  next
    assume r: "e = epoch \<and> 1 \<le> s \<and> s \<le> int (length dl) \<and> eval_due (eval_per_steps a) s"
    then have "nat s \<in> {1..<Suc (length dl)}" and "s = int (nat s)" by auto
    with r show "\<exists>n\<in>{1..<Suc (length dl)}. e = epoch \<and> s = int n \<and> eval_due (eval_per_steps a) (int n)"
      by metis
  qed
  finally show ?thesis .
qed


text \<open>
  Claim C1. With \<open>eval_per_steps = N\<close>, the calls of one pass of \<open>train_loop\<close> over the data
  loader are, for the steps \<open>s = 1, 2, \<dots>\<close> in turn, the training step \<open>s\<close> followed by
  \<open>self.eval(epoch, s)\<close> exactly when \<open>N = -1\<close>, or \<open>N > 0\<close> and \<open>s mod N = 0\<close>. So
  \<open>eval\<close> is called with step \<open>s\<close> if and only if \<open>s\<close> is a step of the pass and the
  condition holds, and with \<open>N = 0\<close> it is never called.
\<close>

theorem eval_per_steps_cadence:
  "train_loop a dl epoch =
     concat (map (\<lambda>s. step_block a epoch (int s)) [1..<Suc (length dl)])
   \<and> (Eval e s \<in> set (train_loop a dl epoch) \<longleftrightarrow>
        e = epoch \<and> 1 \<le> s \<and> s \<le> int (length dl) \<and> eval_due (eval_per_steps a) s)
   \<and> (eval_per_steps a = 0 \<longrightarrow> Eval e s \<notin> set (train_loop a dl epoch))"
proof (intro conjI impI)
  show "train_loop a dl epoch =
     concat (map (\<lambda>s. step_block a epoch (int s)) [1..<Suc (length dl)])"
    by (rule train_loop_blocks)
  show "Eval e s \<in> set (train_loop a dl epoch) \<longleftrightarrow>
        e = epoch \<and> 1 \<le> s \<and> s \<le> int (length dl) \<and> eval_due (eval_per_steps a) s"
    by (rule Eval_in_train_loop)
  assume "eval_per_steps a = 0"
  then show "Eval e s \<notin> set (train_loop a dl epoch)"
    by (simp add: Eval_in_train_loop eval_due_zero)
qed

theorem eval_per_steps_cadence_witness:
  "train_loop (default_args\<lparr>eval_per_steps := 2\<rparr>) [(), (), (), ()] 7 =
     [EngineStep 7 1, EngineStep 7 2, Eval 7 2, EngineStep 7 3, EngineStep 7 4, Eval 7 4]
   \<and> Eval 7 4 \<in> set (train_loop (default_args\<lparr>eval_per_steps := 2\<rparr>) [(), (), (), ()] 7)
   \<and> eval_per_steps (default_args\<lparr>eval_per_steps := 0\<rparr>) = 0
   \<and> Eval 7 4 \<notin> set (train_loop (default_args\<lparr>eval_per_steps := 0\<rparr>) [(), (), (), ()] 7)"
  using eval_per_steps_cadence [of "default_args\<lparr>eval_per_steps := 2\<rparr>" "[(), (), (), ()]" 7 7 4]
        eval_per_steps_cadence [of "default_args\<lparr>eval_per_steps := 0\<rparr>" "[(), (), (), ()]" 7 7 4]
  by (simp add: step_block_def eval_due_def default_args_def upt_rec)

lemma for_epochs_Cons:
  "for_epochs a dl (epoch # rest) = for_epoch_block a dl (epoch + 1) @ for_epochs a dl rest"
  by (simp add: for_epoch_block_def eval_due_def)

lemma for_epochs_blocks:
  "for_epochs a dl es = concat (map (\<lambda>epoch. for_epoch_block a dl (epoch + 1)) es)"
proof (induction es)
  case Nil
  show ?case by simp
next
  case (Cons epoch rest)
  show ?case
    unfolding for_epochs_Cons Cons.IH by simp
qed

lemma for_epochs_range:
  "for_epochs a dl (range_py n) =
     concat (map (\<lambda>k. for_epoch_block a dl (int k)) [1..<Suc (nat n)])"
proof -
  have "[1..<Suc (nat n)] = map Suc [0..<nat n]"
    by (simp add: map_Suc_upt del: upt_Suc)
  moreover have "(\<lambda>i. for_epoch_block a dl (int i + 1)) = (\<lambda>i. for_epoch_block a dl (int (Suc i)))"
    by (rule ext) (simp add: algebra_simps)
  ultimately show ?thesis
    by (simp add: for_epochs_blocks range_py_def comp_def del: upt_Suc)
qed

lemma forever_epochs_Suc:
  "forever_epochs a dl (Suc fuel) epoch =
     forever_epoch_block a dl (epoch + 1) @ forever_epochs a dl fuel (epoch + 1)"
  by (simp add: forever_epoch_block_def eval_due_def Let_def)

lemma forever_epochs_blocks:
  "forever_epochs a dl fuel epoch =
     concat (map (\<lambda>i. forever_epoch_block a dl (epoch + 1 + int i)) [0..<fuel])"
proof (induction fuel arbitrary: epoch)
  case 0
  show ?case by simp
next
  case (Suc fuel)
  have shift: "[0..<Suc fuel] = 0 # map Suc [0..<fuel]"
    by (simp add: upt_conv_Cons map_Suc_upt del: upt_Suc)
  have "(\<lambda>i. forever_epoch_block a dl (epoch + 1 + 1 + int i)) =
        (\<lambda>i. forever_epoch_block a dl (epoch + 1 + int (Suc i)))"
    by (rule ext) (simp add: algebra_simps)
  then have tl: "forever_epochs a dl fuel (epoch + 1) =
      concat (map (\<lambda>i. forever_epoch_block a dl (epoch + 1 + int (Suc i))) [0..<fuel])"
    using Suc.IH [of "epoch + 1"] by simp
  show ?case
    unfolding shift forever_epochs_Suc tl
    by (simp add: comp_def del: upt_Suc)
qed

lemma forever_epochs_from_zero:
  "forever_epochs a dl fuel 0 =
     concat (map (\<lambda>k. forever_epoch_block a dl (int k)) [1..<Suc fuel])"
proof -
  have "[1..<Suc fuel] = map Suc [0..<fuel]"
    by (simp add: map_Suc_upt del: upt_Suc)
  moreover have "(\<lambda>i. forever_epoch_block a dl (0 + 1 + int i)) =
                 (\<lambda>i. forever_epoch_block a dl (int (Suc i)))"
    by (rule ext) (simp add: algebra_simps)
  ultimately show ?thesis
    by (simp add: forever_epochs_blocks comp_def del: upt_Suc)
qed

lemma Eval_zero_notin_train_loop: "Eval e 0 \<notin> set (train_loop a dl epoch)"
  by (simp add: Eval_in_train_loop)

text \<open>
  Claim C2. With \<open>eval_per_epoches = M\<close>, in the branch \<open>epochs > 0\<close> as in the branch
  \<open>epochs = -1\<close>, the calls of \<open>train\<close> are, for the epochs \<open>k = 1, 2, \<dots>\<close> in turn, the
  calls of \<open>train_loop\<close> followed by one call of \<open>eval\<close> exactly when \<open>M = -1\<close>, or \<open>M > 0\<close>
  and \<open>k mod M = 0\<close>. With \<open>epochs > 0\<close> the method returns after \<open>epochs\<close> epochs; with
  \<open>epochs = -1\<close> it is still running after any number \<open>fuel\<close> of epochs. With \<open>M = 0\<close>
  no call \<open>eval(_, 0)\<close> is made.
\<close>

theorem eval_per_epoches_cadence:
  "(epochs a > 0 \<longrightarrow>
      train a dl fuel =
        Returned (concat (map (\<lambda>k. for_epoch_block a dl (int k)) [1..<Suc (nat (epochs a))])))
   \<and> (epochs a = - 1 \<longrightarrow>
      train a dl fuel =
        Running (concat (map (\<lambda>k. forever_epoch_block a dl (int k)) [1..<Suc fuel])))
   \<and> (eval_per_epoches a = 0 \<longrightarrow> Eval e 0 \<notin> set (calls (train a dl fuel)))"
proof (intro conjI impI)
  assume "epochs a > 0"
  then show "train a dl fuel =
        Returned (concat (map (\<lambda>k. for_epoch_block a dl (int k)) [1..<Suc (nat (epochs a))]))"
    by (simp add: train_def for_epochs_range del: upt_Suc)
next
  assume "epochs a = - 1"
  then show "train a dl fuel =
        Running (concat (map (\<lambda>k. forever_epoch_block a dl (int k)) [1..<Suc fuel]))"
    by (simp add: train_def forever_epochs_from_zero del: upt_Suc)
next
  assume z: "eval_per_epoches a = 0"
  have f: "Eval e 0 \<notin> set (for_epochs a dl es)" for es
    by (simp add: for_epochs_blocks for_epoch_block_def z eval_due_zero Eval_zero_notin_train_loop)
  have g: "Eval e 0 \<notin> set (forever_epochs a dl n ep)" for n ep
    by (simp add: forever_epochs_blocks forever_epoch_block_def z eval_due_zero
        Eval_zero_notin_train_loop del: upt_Suc)
  show "Eval e 0 \<notin> set (calls (train a dl fuel))"
    by (simp add: train_def f g)
qed

theorem eval_per_epoches_cadence_witness:
  "epochs (default_args\<lparr>epochs := 3, eval_per_steps := 0, eval_per_epoches := 2\<rparr>) > 0
   \<and> train (default_args\<lparr>epochs := 3, eval_per_steps := 0, eval_per_epoches := 2\<rparr>) [()] 0 =
       Returned [EngineStep 0 1, EngineStep 1 1, Eval 1 0, EngineStep 2 1]
   \<and> epochs (default_args\<lparr>epochs := - 1, eval_per_steps := 0, eval_per_epoches := 2\<rparr>) = - 1
   \<and> train (default_args\<lparr>epochs := - 1, eval_per_steps := 0, eval_per_epoches := 2\<rparr>) [()] 3 =
       Running [EngineStep 0 1, EngineStep 1 1, Eval 2 0, EngineStep 2 1]
   \<and> eval_per_epoches (default_args\<lparr>epochs := 3, eval_per_steps := 0, eval_per_epoches := 0\<rparr>) = 0
   \<and> Eval 1 0 \<notin> set (calls (train (default_args\<lparr>epochs := 3, eval_per_steps := 0, eval_per_epoches := 0\<rparr>) [()] 0))"
  using eval_per_epoches_cadence
          [of "default_args\<lparr>epochs := 3, eval_per_steps := 0, eval_per_epoches := 2\<rparr>" "[()]" 0 1]
        eval_per_epoches_cadence
          [of "default_args\<lparr>epochs := - 1, eval_per_steps := 0, eval_per_epoches := 2\<rparr>" "[()]" 3 1]
        eval_per_epoches_cadence
          [of "default_args\<lparr>epochs := 3, eval_per_steps := 0, eval_per_epoches := 0\<rparr>" "[()]" 0 1]
  by (simp add: for_epoch_block_def forever_epoch_block_def train_loop_def eval_due_def
        default_args_def upt_rec)

text \<open>
  Claim C10. With \<open>epochs = 0\<close>, \<open>train\<close> returns having issued no call at all: no
  training step, no \<open>engine.step()\<close>, no \<open>eval\<close>.
\<close>

theorem epochs_zero_returns:
  "epochs a = 0 \<Longrightarrow> train a dl fuel = Returned []"
  by (simp add: train_def)

theorem epochs_zero_returns_witness:
  "epochs (default_args\<lparr>epochs := 0\<rparr>) = 0
   \<and> train (default_args\<lparr>epochs := 0\<rparr>) [(), ()] 5 = Returned []"
  using epochs_zero_returns [of "default_args\<lparr>epochs := 0\<rparr>" "[(), ()]" 5]
  by (simp add: default_args_def)

subsection \<open>One pass of the generation loop\<close>

lemma pad_cols_closed:
  "pad_cols p t =
     \<lparr>ncols = max (ncols t) (Suc p),
      rows = map (\<lambda>row. row @ replicate (Suc p - ncols t) 0) (rows t)\<rparr>"
proof (induction p t rule: pad_cols.induct)
  case (1 p t)
  show ?case
  proof (cases "p \<ge> ncols t")
    case True
    have k: "Suc p - ncols t = Suc (p - ncols t)"
      using True by simp
    have "pad_cols p t = pad_cols p (cat_zero_col t)"
      using True by (simp add: pad_cols.simps [of p t])
    also have "\<dots> = \<lparr>ncols = max (Suc (ncols t)) (Suc p),
        rows = map (\<lambda>row. row @ replicate (p - ncols t) 0) (map (\<lambda>row. row @ [0]) (rows t))\<rparr>"
      using "1.IH" [OF True] by (simp add: cat_zero_col_def)
    also have "\<dots> = \<lparr>ncols = max (ncols t) (Suc p),
        rows = map (\<lambda>row. row @ replicate (Suc p - ncols t) 0) (rows t)\<rparr>"
      using True by (simp add: k comp_def max_def)
    finally show ?thesis .
  next
    case False
    then have "pad_cols p t = t"
      by (simp add: pad_cols.simps [of p t])
    moreover have "Suc p - ncols t = 0" and "max (ncols t) (Suc p) = ncols t"
      using False by simp_all
    ultimately show ?thesis by simp
  qed
qed

lemma hits_stop_iff: "hits_stop stop_tokens nxt \<longleftrightarrow> (\<exists>i\<in>set nxt. i \<in> set stop_tokens)"
  by (induction nxt) auto

lemma length_next_tokens: "length (next_tokens eng p t) = length (rows t)"
  by (simp add: next_tokens_def)

lemma nth_next_tokens: "r < length (rows t) \<Longrightarrow> next_tokens eng p t ! r = eng p t r"
  by (simp add: next_tokens_def)

lemma gen_body_tokens: "fst (gen_body eng p t) = next_tokens eng p t"
  by (simp add: gen_body_def Let_def)

lemma gen_body_ncols: "ncols (snd (gen_body eng p t)) = max (ncols t) (p + 2)"
  by (simp add: gen_body_def Let_def where_write_def pad_cols_closed)

lemma gen_body_nrows: "length (rows (snd (gen_body eng p t))) = length (rows t)"
  by (simp add: gen_body_def Let_def where_write_def pad_cols_closed length_next_tokens)


lemma gen_body_row:
  assumes "r < length (rows t)"
  shows "rows (snd (gen_body eng p t)) ! r =
     (let row = rows t ! r @ replicate (p + 2 - ncols t) 0
      in row[p + 1 := (if row ! (p + 1) = 0 then eng p t r else row ! (p + 1))])"
  using assms
  by (simp add: gen_body_def Let_def where_write_def pad_cols_closed length_next_tokens
      nth_next_tokens)

lemma well_shaped_row: "well_shaped t \<Longrightarrow> r < length (rows t) \<Longrightarrow> length (rows t ! r) = ncols t"
  by (simp add: well_shaped_def list_all_length)

lemma gen_body_well_shaped:
  assumes "well_shaped t"
  shows "well_shaped (snd (gen_body eng p t))"
  unfolding well_shaped_def list_all_length
proof (intro allI impI)
  fix r assume "r < length (rows (snd (gen_body eng p t)))"
  then have r: "r < length (rows t)" by (simp add: gen_body_nrows)
  show "length (rows (snd (gen_body eng p t)) ! r) = ncols (snd (gen_body eng p t))"
    using well_shaped_row [OF assms r]
    by (simp add: gen_body_row [OF r] gen_body_ncols Let_def max_def)
qed

lemma gen_body_cell:
  assumes ws: "well_shaped t" and r: "r < length (rows t)" and c: "c < max (ncols t) (p + 2)"
  shows "cell (snd (gen_body eng p t)) r c =
     (if c = p + 1 then (if padded t r c = 0 then eng p t r else padded t r c)
      else padded t r c)"
proof -
  define row where "row = rows t ! r @ replicate (p + 2 - ncols t) 0"
  have len: "length (rows t ! r) = ncols t"
    by (rule well_shaped_row [OF ws r])
  have lrow: "length row = max (ncols t) (p + 2)"
    by (simp add: row_def len max_def)
  have pad: "row ! c' = padded t r c'" if "c' < max (ncols t) (p + 2)" for c'
    using that by (auto simp add: row_def padded_def cell_def nth_append len)
  have "cell (snd (gen_body eng p t)) r c =
      (row[p + 1 := (if row ! (p + 1) = 0 then eng p t r else row ! (p + 1))]) ! c"
    by (simp add: cell_def gen_body_row [OF r] Let_def row_def)
  also have "\<dots> = (if c = p + 1 then (if row ! c = 0 then eng p t r else row ! c) else row ! c)"
    using c lrow by (simp add: nth_list_update)
  also have "\<dots> = (if c = p + 1 then (if padded t r c = 0 then eng p t r else padded t r c)
      else padded t r c)"
    by (simp only: pad [OF c])
  finally show ?thesis .
qed

subsection \<open>The generation loop\<close>

lemma gen_loop_stop:
  assumes "hits_stop stop_tokens (fst (gen_body eng p t))"
  shows "gen_loop eng stop_tokens (p # ps) t =
     \<lparr>final_ids = snd (gen_body eng p t),
      passes = [\<lparr>column = p + 1, tokens = fst (gen_body eng p t),
                 ids_after = snd (gen_body eng p t)\<rparr>],
      broke = True\<rparr>"
  using assms by (cases "gen_body eng p t") (simp add: Let_def)

lemma gen_loop_go:
  assumes "\<not> hits_stop stop_tokens (fst (gen_body eng p t))"
  shows "gen_loop eng stop_tokens (p # ps) t =
     (gen_loop eng stop_tokens ps (snd (gen_body eng p t)))
       \<lparr>passes := \<lparr>column = p + 1, tokens = fst (gen_body eng p t),
                    ids_after = snd (gen_body eng p t)\<rparr>
                  # passes (gen_loop eng stop_tokens ps (snd (gen_body eng p t)))\<rparr>"
  using assms by (cases "gen_body eng p t") (simp add: Let_def)

declare gen_loop.simps(2) [simp del]

lemma passes_length: "length (passes (gen_loop eng stop_tokens ps t)) \<le> length ps"
proof (induction ps arbitrary: t)
  case Nil
  show ?case by simp
next
  case (Cons p ps)
  show ?case
  proof (cases "hits_stop stop_tokens (fst (gen_body eng p t))")
    case True
    then show ?thesis by (simp add: gen_loop_stop)
  next
    case False
    then show ?thesis using Cons.IH [of "snd (gen_body eng p t)"] by (simp add: gen_loop_go)
  qed
qed

lemma broke_iff:
  "broke (gen_loop eng stop_tokens ps t) \<longleftrightarrow>
     (\<exists>q\<in>set (passes (gen_loop eng stop_tokens ps t)). hits_stop stop_tokens (tokens q))"
proof (induction ps arbitrary: t)
  case Nil
  show ?case by simp
next
  case (Cons p ps)
  show ?case
  proof (cases "hits_stop stop_tokens (fst (gen_body eng p t))")
    case True
    then show ?thesis by (simp add: gen_loop_stop)
  next
    case False
    then show ?thesis using Cons.IH [of "snd (gen_body eng p t)"] by (simp add: gen_loop_go)
  qed
qed

lemma not_broke_length:
  "\<not> broke (gen_loop eng stop_tokens ps t) \<Longrightarrow>
     length (passes (gen_loop eng stop_tokens ps t)) = length ps"
proof (induction ps arbitrary: t)
  case Nil
  show ?case by simp
next
  case (Cons p ps)
  show ?case
  proof (cases "hits_stop stop_tokens (fst (gen_body eng p t))")
    case True
    then show ?thesis using Cons.prems by (simp add: gen_loop_stop)
  next
    case False
    then show ?thesis
      using Cons.IH [of "snd (gen_body eng p t)"] Cons.prems by (simp add: gen_loop_go)
  qed
qed

lemma broke_last:
  "broke (gen_loop eng stop_tokens ps t) \<Longrightarrow>
     passes (gen_loop eng stop_tokens ps t) \<noteq> []
     \<and> hits_stop stop_tokens (tokens (last (passes (gen_loop eng stop_tokens ps t))))
     \<and> list_all (\<lambda>q. \<not> hits_stop stop_tokens (tokens q))
          (butlast (passes (gen_loop eng stop_tokens ps t)))"
proof (induction ps arbitrary: t)
  case Nil
  then show ?case by simp
next
  case (Cons p ps)
  show ?case
  proof (cases "hits_stop stop_tokens (fst (gen_body eng p t))")
    case True
    then show ?thesis by (simp add: gen_loop_stop)
  next
    case False
    then show ?thesis
      using Cons.IH [of "snd (gen_body eng p t)"] Cons.prems by (simp add: gen_loop_go)
  qed
qed

lemma final_ids_last:
  "final_ids (gen_loop eng stop_tokens ps t) =
     (if passes (gen_loop eng stop_tokens ps t) = [] then t
      else ids_after (last (passes (gen_loop eng stop_tokens ps t))))"
proof (induction ps arbitrary: t)
  case Nil
  show ?case by simp
next
  case (Cons p ps)
  show ?case
  proof (cases "hits_stop stop_tokens (fst (gen_body eng p t))")
    case True
    then show ?thesis by (simp add: gen_loop_stop)
  next
    case False
    then show ?thesis
      using Cons.IH [of "snd (gen_body eng p t)"] by (simp add: gen_loop_go)
  qed
qed

lemma passes_chain:
  "i < length (passes (gen_loop eng stop_tokens ps t)) \<Longrightarrow>
     passes (gen_loop eng stop_tokens ps t) ! i =
       \<lparr>column = ps ! i + 1,
        tokens = fst (gen_body eng (ps ! i) (ids_before t (passes (gen_loop eng stop_tokens ps t)) i)),
        ids_after = snd (gen_body eng (ps ! i) (ids_before t (passes (gen_loop eng stop_tokens ps t)) i))\<rparr>"
proof (induction ps arbitrary: t i)
  case Nil
  then show ?case by simp
next
  case (Cons p ps)
  show ?case
  proof (cases "hits_stop stop_tokens (fst (gen_body eng p t))")
    case True
    then show ?thesis using Cons.prems by (simp add: gen_loop_stop ids_before_def)
  next
    case False
    let ?t' = "snd (gen_body eng p t)"
    show ?thesis
    proof (cases i)
      case 0
      then show ?thesis using False by (simp add: gen_loop_go ids_before_def)
    next
      case (Suc j)
      then have j: "j < length (passes (gen_loop eng stop_tokens ps ?t'))"
        using Cons.prems False by (simp add: gen_loop_go)
      have b: "ids_before t (passes (gen_loop eng stop_tokens (p # ps) t)) (Suc j) =
               ids_before ?t' (passes (gen_loop eng stop_tokens ps ?t')) j"
        using False by (cases j) (simp_all add: gen_loop_go ids_before_def)
      show ?thesis
        using Cons.IH [OF j] False unfolding Suc b by (simp add: gen_loop_go)
    qed
  qed
qed

lemma example_run:
  "generate_run example_engine example_batch 3 [12] =
     \<lparr>final_ids = \<lparr>ncols = 3, rows = [[5, 6, 11], [7, 2, 12]]\<rparr>,
      passes =
        [\<lparr>column = 1, tokens = [1, 2],
          ids_after = \<lparr>ncols = 3, rows = [[5, 6, 0], [7, 2, 0]]\<rparr>\<rparr>,
         \<lparr>column = 2, tokens = [11, 12],
          ids_after = \<lparr>ncols = 3, rows = [[5, 6, 11], [7, 2, 12]]\<rparr>\<rparr>],
      broke = True\<rparr>"
  by code_simp

lemma positions: "map nat (range_py n) = [0..<nat n]"
  by (simp add: range_py_def comp_def)

lemma run_length: "length (passes (generate_run eng batch max_length stop_tokens)) \<le> nat max_length"
  using passes_length [of eng stop_tokens "[0..<nat max_length]" batch]
  by (simp add: generate_run_def positions)

lemma run_chain:
  assumes "i < length (passes (generate_run eng batch max_length stop_tokens))"
  shows "passes (generate_run eng batch max_length stop_tokens) ! i =
       \<lparr>column = i + 1,
        tokens = fst (gen_body eng i
           (ids_before batch (passes (generate_run eng batch max_length stop_tokens)) i)),
        ids_after = snd (gen_body eng i
           (ids_before batch (passes (generate_run eng batch max_length stop_tokens)) i))\<rparr>"
proof -
  have "i < nat max_length"
    using assms run_length [of eng batch max_length stop_tokens] by simp
  then have "[0..<nat max_length] ! i = i" by simp
  then show ?thesis
    using passes_chain [of i eng stop_tokens "[0..<nat max_length]" batch] assms
    by (simp add: generate_run_def positions)
qed

lemma run_before:
  assumes ws: "well_shaped batch"
  shows "i \<le> length (passes (generate_run eng batch max_length stop_tokens)) \<Longrightarrow>
     well_shaped (ids_before batch (passes (generate_run eng batch max_length stop_tokens)) i)
     \<and> length (rows (ids_before batch (passes (generate_run eng batch max_length stop_tokens)) i))
         = length (rows batch)
     \<and> ncols batch \<le> ncols (ids_before batch (passes (generate_run eng batch max_length stop_tokens)) i)"
proof (induction i)
  case 0
  show ?case using ws by (simp add: ids_before_def)
next
  case (Suc i)
  let ?ps = "passes (generate_run eng batch max_length stop_tokens)"
  have i: "i < length ?ps" using Suc.prems by simp
  have nxt: "ids_before batch ?ps (Suc i) = snd (gen_body eng i (ids_before batch ?ps i))"
    by (simp add: ids_before_def run_chain [OF i])
  have ih: "well_shaped (ids_before batch ?ps i)"
      "length (rows (ids_before batch ?ps i)) = length (rows batch)"
      "ncols batch \<le> ncols (ids_before batch ?ps i)"
    using Suc.IH i by simp_all
  show ?case
    unfolding nxt
    using ih by (simp add: gen_body_well_shaped gen_body_nrows gen_body_ncols)
qed

lemma run_final:
  "generate eng batch max_length stop_tokens =
     ids_before batch (passes (generate_run eng batch max_length stop_tokens))
       (length (passes (generate_run eng batch max_length stop_tokens)))"
  by (simp add: generate_def generate_run_def final_ids_last ids_before_def last_conv_nth)

lemma run_ncols:
  assumes "i \<le> length (passes (generate_run eng batch max_length stop_tokens))"
  shows "ncols (ids_before batch (passes (generate_run eng batch max_length stop_tokens)) i) =
     (if i = 0 then ncols batch else max (ncols batch) (Suc i))"
  using assms
proof (induction i)
  case 0
  show ?case by (simp add: ids_before_def)
next
  case (Suc i)
  let ?ps = "passes (generate_run eng batch max_length stop_tokens)"
  have i: "i < length ?ps" using Suc.prems by simp
  have nxt: "ids_before batch ?ps (Suc i) = snd (gen_body eng i (ids_before batch ?ps i))"
    by (simp add: ids_before_def run_chain [OF i])
  have "ncols (ids_before batch ?ps i) = (if i = 0 then ncols batch else max (ncols batch) (Suc i))"
    using Suc.IH i by simp
  then show ?case
    unfolding nxt by (simp add: gen_body_ncols max_def)
qed

text \<open>
  Claim C3. For every batch, every \<open>max_length\<close> and every list of stop tokens, \<open>generate\<close>
  returns (the model is a total function: the \<open>for\<close> loop runs over the finite
  \<open>range(max_length)\<close>, and the inner \<open>while\<close> loop has the decreasing measure given with
  \<open>pad_cols\<close>). The loop makes at most \<open>max_length\<close> passes, none at all when
  \<open>max_length \<le> 0\<close>; the incremented position of every pass lies between 1 and
  \<open>max_length\<close>, so the loop index itself stays below \<open>max_length\<close>. What is returned is the
  batch as the last pass left it (the batch itself when there was no pass), and it has at
  most \<open>max_length + 1\<close> columns unless it had more on entry.
\<close>

theorem generate_bounded:
  "length (passes (generate_run eng batch max_length stop_tokens)) \<le> nat max_length
   \<and> list_all (\<lambda>q. 1 \<le> column q \<and> int (column q) \<le> max_length)
        (passes (generate_run eng batch max_length stop_tokens))
   \<and> generate eng batch max_length stop_tokens =
        (if passes (generate_run eng batch max_length stop_tokens) = [] then batch
         else ids_after (last (passes (generate_run eng batch max_length stop_tokens))))
   \<and> ncols (generate eng batch max_length stop_tokens) \<le> max (ncols batch) (Suc (nat max_length))"
proof (intro conjI)
  let ?ps = "passes (generate_run eng batch max_length stop_tokens)"
  show len: "length ?ps \<le> nat max_length"
    by (rule run_length)
  show "list_all (\<lambda>q. 1 \<le> column q \<and> int (column q) \<le> max_length) ?ps"
    unfolding list_all_length
  proof (intro allI impI)
    fix i assume i: "i < length ?ps"
    then have "i < nat max_length" using len by simp
    then show "1 \<le> column (?ps ! i) \<and> int (column (?ps ! i)) \<le> max_length"
      by (simp add: run_chain [OF i])
  qed
  show "generate eng batch max_length stop_tokens =
        (if ?ps = [] then batch else ids_after (last ?ps))"
    by (simp add: generate_def generate_run_def final_ids_last)
  have "ncols (generate eng batch max_length stop_tokens) =
      (if length ?ps = 0 then ncols batch else max (ncols batch) (Suc (length ?ps)))"
    unfolding run_final by (rule run_ncols) simp
  then show "ncols (generate eng batch max_length stop_tokens)
      \<le> max (ncols batch) (Suc (nat max_length))"
    using len by (simp add: max_def split: if_splits)
qed

theorem generate_bounded_witness:
  "length (passes (generate_run example_engine example_batch 3 [12])) = 2
   \<and> length (passes (generate_run example_engine example_batch 3 [12])) \<le> nat 3
   \<and> generate example_engine example_batch 3 [12] = \<lparr>ncols = 3, rows = [[5, 6, 11], [7, 2, 12]]\<rparr>"
  using generate_bounded [of example_engine example_batch 3 "[12]"]
  by (simp add: example_run)

text \<open>
  Claim C4. For \<open>max_length > 0\<close>, fewer than \<open>max_length\<close> passes reach the end of the
  loop body if and only if some pass produced a \<open>next_tokens\<close> with an element in
  \<open>stop_tokens\<close>, and that is exactly when the loop is left by \<open>break\<close>. The breaking pass
  is the last one and the only one with a stop token, and the batch returned is
  \<open>input_ids\<close> after the write of that pass: the break comes after the write.
  The external calls inside the \<open>try\<close> are taken not to raise \<open>StopIteration\<close> themselves.
\<close>

theorem generate_break_iff:
  assumes "0 < max_length"
  shows "(completed (generate_run eng batch max_length stop_tokens) < nat max_length \<longleftrightarrow>
            (\<exists>q\<in>set (passes (generate_run eng batch max_length stop_tokens)).
               \<exists>tok\<in>set (tokens q). tok \<in> set stop_tokens))
       \<and> (broke (generate_run eng batch max_length stop_tokens) \<longleftrightarrow>
            completed (generate_run eng batch max_length stop_tokens) < nat max_length)
       \<and> (broke (generate_run eng batch max_length stop_tokens) \<longrightarrow>
            passes (generate_run eng batch max_length stop_tokens) \<noteq> []
            \<and> (\<exists>tok\<in>set (tokens (last (passes (generate_run eng batch max_length stop_tokens)))).
                  tok \<in> set stop_tokens)
            \<and> list_all (\<lambda>q. \<not> hits_stop stop_tokens (tokens q))
                 (butlast (passes (generate_run eng batch max_length stop_tokens)))
            \<and> generate eng batch max_length stop_tokens =
                 snd (gen_body eng (completed (generate_run eng batch max_length stop_tokens))
                   (ids_before batch (passes (generate_run eng batch max_length stop_tokens))
                      (completed (generate_run eng batch max_length stop_tokens)))))"
proof -
  let ?r = "generate_run eng batch max_length stop_tokens"
  have r: "?r = gen_loop eng stop_tokens [0..<nat max_length] batch"
    by (simp add: generate_run_def positions)
  have len: "length (passes ?r) \<le> nat max_length"
    by (rule run_length)
  have b1: "broke ?r \<longleftrightarrow> (\<exists>q\<in>set (passes ?r). \<exists>tok\<in>set (tokens q). tok \<in> set stop_tokens)"
    unfolding r by (simp add: broke_iff hits_stop_iff)
  have b2: "broke ?r \<longleftrightarrow> completed ?r < nat max_length"
  proof
    assume b: "broke ?r"
    then have "passes ?r \<noteq> []" unfolding r using broke_last by blast
    then show "completed ?r < nat max_length"
      using b len by (cases "passes ?r") (simp_all add: completed_def)
  next
    assume c: "completed ?r < nat max_length"
    show "broke ?r"
    proof (rule ccontr)
      assume nb: "\<not> broke ?r"
      then have "length (passes ?r) = nat max_length"
        unfolding r using not_broke_length [of eng stop_tokens "[0..<nat max_length]" batch]
        by simp
      then show False using c nb by (simp add: completed_def)
    qed
  qed
  have b3: "passes ?r \<noteq> []
            \<and> (\<exists>tok\<in>set (tokens (last (passes ?r))). tok \<in> set stop_tokens)
            \<and> list_all (\<lambda>q. \<not> hits_stop stop_tokens (tokens q)) (butlast (passes ?r))
            \<and> generate eng batch max_length stop_tokens =
                 snd (gen_body eng (completed ?r) (ids_before batch (passes ?r) (completed ?r)))"
    if b: "broke ?r"
  proof -
    have l: "passes ?r \<noteq> []"
        "hits_stop stop_tokens (tokens (last (passes ?r)))"
        "list_all (\<lambda>q. \<not> hits_stop stop_tokens (tokens q)) (butlast (passes ?r))"
      using b broke_last [of eng stop_tokens "[0..<nat max_length]" batch] unfolding r
      by simp_all
    have c: "completed ?r = length (passes ?r) - 1"
      using b by (simp add: completed_def)
    have i: "completed ?r < length (passes ?r)"
      using l(1) c by (cases "passes ?r") simp_all
    have "generate eng batch max_length stop_tokens = ids_after (last (passes ?r))"
      using l(1) by (simp add: generate_def generate_run_def final_ids_last)
    also have "\<dots> = ids_after (passes ?r ! completed ?r)"
      using l(1) by (simp add: last_conv_nth c)
    also have "\<dots> = snd (gen_body eng (completed ?r) (ids_before batch (passes ?r) (completed ?r)))"
      by (subst run_chain [OF i]) simp
    finally show ?thesis
      using l by (simp add: hits_stop_iff)
  qed
  show ?thesis
    using b1 b2 b3 by blast
qed

theorem generate_break_iff_witness:
  "(0::int) < 3
   \<and> completed (generate_run example_engine example_batch 3 [12]) = 1
   \<and> broke (generate_run example_engine example_batch 3 [12])
   \<and> 12 \<in> set (tokens (last (passes (generate_run example_engine example_batch 3 [12]))))
   \<and> generate example_engine example_batch 3 [12] =
        snd (gen_body example_engine 1
              \<lparr>ncols = 3, rows = [[5, 6, 0], [7, 2, 0]]\<rparr>)"
  using generate_break_iff [of 3 example_engine example_batch "[12]"]
  by (simp add: example_run completed_def ids_before_def)

subsection \<open>What a pass writes\<close>

text \<open>
  Claim C6. In pass number \<open>i\<close> (from 0) of the loop of \<open>generate\<close>, on a well-shaped
  batch: the position written is \<open>i + 1\<close>, one further in each pass; \<open>next_tokens\<close> holds
  one token for each row; afterwards \<open>input_ids\<close> has the columns it had, extended by zero
  columns just as far as needed for column \<open>i + 1\<close> to exist; it keeps its rows and its
  shape; and every entry is the former entry (zero in an appended column), except in
  column \<open>i + 1\<close>, where a zero entry has become the predicted token of its row.
\<close>

theorem generate_pass_one_column:
  assumes ws: "well_shaped batch"
    and i: "i < length (passes (generate_run eng batch max_length stop_tokens))"
  shows "let ps = passes (generate_run eng batch max_length stop_tokens);
             q = ps ! i;
             before = ids_before batch ps i
         in column q = i + 1
          \<and> tokens q = next_tokens eng i before
          \<and> length (tokens q) = length (rows batch)
          \<and> ncols (ids_after q) = max (ncols before) (column q + 1)
          \<and> length (rows (ids_after q)) = length (rows batch)
          \<and> well_shaped (ids_after q)
          \<and> (\<forall>r<length (rows batch). \<forall>c<ncols (ids_after q).
                cell (ids_after q) r c =
                  (if c = column q \<and> padded before r c = 0 then tokens q ! r
                   else padded before r c))"
proof -
  let ?ps = "passes (generate_run eng batch max_length stop_tokens)"
  let ?before = "ids_before batch ?ps i"
  have q: "?ps ! i = \<lparr>column = i + 1, tokens = fst (gen_body eng i ?before),
                      ids_after = snd (gen_body eng i ?before)\<rparr>"
    by (rule run_chain [OF i])
  have inv: "well_shaped ?before" "length (rows ?before) = length (rows batch)"
    using run_before [OF ws, of i eng max_length stop_tokens] i by simp_all
  have sel: "column (?ps ! i) = i + 1" "tokens (?ps ! i) = next_tokens eng i ?before"
      "ids_after (?ps ! i) = snd (gen_body eng i ?before)"
    by (simp_all add: q gen_body_tokens)
  have cells: "cell (snd (gen_body eng i ?before)) r c =
      (if c = i + 1 \<and> padded ?before r c = 0 then next_tokens eng i ?before ! r
       else padded ?before r c)"
    if "r < length (rows batch)" and "c < ncols (snd (gen_body eng i ?before))" for r c
    using that gen_body_cell [OF inv(1), of r c i eng] inv(2)
    by (simp add: nth_next_tokens gen_body_ncols)
  show ?thesis
    unfolding Let_def sel
  proof (intro conjI allI impI)
    show "i + 1 = i + 1" by simp
    show "next_tokens eng i ?before = next_tokens eng i ?before" by simp
    show "length (next_tokens eng i ?before) = length (rows batch)"
      by (simp add: length_next_tokens inv(2))
    show "ncols (snd (gen_body eng i ?before)) = max (ncols ?before) (i + 1 + 1)"
      by (simp add: gen_body_ncols)
    show "length (rows (snd (gen_body eng i ?before))) = length (rows batch)"
      by (simp add: gen_body_nrows inv(2))
    show "well_shaped (snd (gen_body eng i ?before))"
      by (rule gen_body_well_shaped [OF inv(1)])
    fix r c
    assume "r < length (rows batch)" and "c < ncols (snd (gen_body eng i ?before))"
    then show "cell (snd (gen_body eng i ?before)) r c =
        (if c = i + 1 \<and> padded ?before r c = 0 then next_tokens eng i ?before ! r
         else padded ?before r c)"
      by (rule cells)
  qed
qed

theorem generate_pass_one_column_witness:
  "well_shaped example_batch
   \<and> 1 < length (passes (generate_run example_engine example_batch 3 [12]))
   \<and> column (passes (generate_run example_engine example_batch 3 [12]) ! 1) = 2
   \<and> tokens (passes (generate_run example_engine example_batch 3 [12]) ! 1) = [11, 12]
   \<and> ncols (ids_after (passes (generate_run example_engine example_batch 3 [12]) ! 1)) = 3
   \<and> cell (ids_after (passes (generate_run example_engine example_batch 3 [12]) ! 1)) 0 2 = 11
   \<and> cell (ids_after (passes (generate_run example_engine example_batch 3 [12]) ! 1)) 0 1 = 6"
proof -
  have ws: "well_shaped example_batch"
    by (simp add: example_batch_def well_shaped_def)
  have i: "1 < length (passes (generate_run example_engine example_batch 3 [12]))"
    by (simp add: example_run)
  show ?thesis
    using ws i generate_pass_one_column [OF ws i]
    by (simp add: example_run cell_def)
qed

text \<open>
  Claim C8. For \<open>max_length \<le> 0\<close>, \<open>generate\<close> makes no pass through its loop (so no
  forward pass and no broadcast), does not break and returns the batch as it was. This
  covers the calls made by \<open>eval\<close> with the setting \<open>eval_max_length = -1\<close>.
\<close>

theorem generate_nonpositive_length:
  "(max_length \<le> 0 \<longrightarrow>
      generate_run eng batch max_length stop_tokens =
        \<lparr>final_ids = batch, passes = [], broke = False\<rparr>
      \<and> generate eng batch max_length stop_tokens = batch)
   \<and> (eval_max_length a \<le> 0 \<longrightarrow>
      eval_generate eng a eval_dl =
        map (\<lambda>batch. \<lparr>final_ids = batch, passes = [], broke = False\<rparr>) eval_dl)"
  by (simp add: generate_def generate_run_def eval_generate_def range_py_def)

theorem generate_nonpositive_length_witness:
  "(- 1 :: int) \<le> 0
   \<and> generate example_engine example_batch (- 1) [2] = example_batch
   \<and> passes (generate_run example_engine example_batch (- 1) [2]) = []
   \<and> eval_max_length (default_args\<lparr>eval_max_length := - 1\<rparr>) \<le> 0
   \<and> eval_generate example_engine (default_args\<lparr>eval_max_length := - 1\<rparr>) [example_batch] =
        [\<lparr>final_ids = example_batch, passes = [], broke = False\<rparr>]"
  using generate_nonpositive_length
          [of "- 1" example_engine example_batch "[2]" "default_args\<lparr>eval_max_length := - 1\<rparr>"
              "[example_batch]"]
  by simp

lemma run_keeps:
  assumes ws: "well_shaped batch" and r: "r < length (rows batch)"
    and c: "c < ncols batch" and nz: "cell batch r c \<noteq> 0"
  shows "i \<le> length (passes (generate_run eng batch max_length stop_tokens)) \<Longrightarrow>
     cell (ids_before batch (passes (generate_run eng batch max_length stop_tokens)) i) r c
       = cell batch r c"
proof (induction i)
  case 0
  show ?case by (simp add: ids_before_def)
next
  case (Suc i)
  let ?ps = "passes (generate_run eng batch max_length stop_tokens)"
  let ?before = "ids_before batch ?ps i"
  have i: "i < length ?ps" using Suc.prems by simp
  have nxt: "ids_before batch ?ps (Suc i) = snd (gen_body eng i ?before)"
    by (simp add: ids_before_def run_chain [OF i])
  have inv: "well_shaped ?before" "length (rows ?before) = length (rows batch)"
      "ncols batch \<le> ncols ?before"
    using run_before [OF ws, of i eng max_length stop_tokens] i by simp_all
  have old: "cell ?before r c = cell batch r c"
    using Suc.IH i by simp
  have cb: "c < ncols ?before" using c inv(3) by simp
  then have pd: "padded ?before r c = cell batch r c"
    by (simp add: padded_def old)
  have r': "r < length (rows ?before)" using r inv(2) by simp
  have c': "c < max (ncols ?before) (i + 2)" using cb by simp
  have "cell (snd (gen_body eng i ?before)) r c =
      (if c = i + 1 then (if padded ?before r c = 0 then eng i ?before r else padded ?before r c)
       else padded ?before r c)"
    by (rule gen_body_cell [OF inv(1) r' c'])
  also have "\<dots> = cell batch r c"
    unfolding pd using nz by auto
  finally show ?case
    unfolding nxt .
qed

text \<open>
  Claim C9. In every pass of the loop of \<open>generate\<close>, in the column being written, an
  entry that was present and nonzero is left as it was, and an entry that is zero (present
  as padding, or just appended) becomes the predicted token of its row. Hence every
  nonzero entry of the batch passed in is found unchanged in the batch returned.
\<close>

theorem generate_keeps_nonzero:
  assumes ws: "well_shaped batch" and r: "r < length (rows batch)"
  shows "(\<forall>i<length (passes (generate_run eng batch max_length stop_tokens)).
            let ps = passes (generate_run eng batch max_length stop_tokens);
                q = ps ! i;
                before = ids_before batch ps i;
                c = column q
            in (c < ncols before \<and> cell before r c \<noteq> 0 \<longrightarrow>
                  cell (ids_after q) r c = cell before r c)
             \<and> (padded before r c = 0 \<longrightarrow> cell (ids_after q) r c = tokens q ! r))
       \<and> (\<forall>c<ncols batch. cell batch r c \<noteq> 0 \<longrightarrow>
            cell (generate eng batch max_length stop_tokens) r c = cell batch r c)"
proof (intro conjI allI impI)
  let ?ps = "passes (generate_run eng batch max_length stop_tokens)"
  fix i assume i: "i < length ?ps"
  let ?before = "ids_before batch ?ps i"
  have q: "?ps ! i = \<lparr>column = i + 1, tokens = fst (gen_body eng i ?before),
                      ids_after = snd (gen_body eng i ?before)\<rparr>"
    by (rule run_chain [OF i])
  have inv: "well_shaped ?before" "length (rows ?before) = length (rows batch)"
    using run_before [OF ws, of i eng max_length stop_tokens] i by simp_all
  have "cell (snd (gen_body eng i ?before)) r (i + 1) =
      (if padded ?before r (i + 1) = 0 then eng i ?before r else padded ?before r (i + 1))"
    using gen_body_cell [OF inv(1), of r "i + 1" i eng] r inv(2) by simp
  then show "let ps = ?ps; q = ps ! i; before = ids_before batch ps i; c = column q
            in (c < ncols before \<and> cell before r c \<noteq> 0 \<longrightarrow>
                  cell (ids_after q) r c = cell before r c)
             \<and> (padded before r c = 0 \<longrightarrow> cell (ids_after q) r c = tokens q ! r)"
    unfolding Let_def q
    using r inv(2) by (simp add: gen_body_tokens nth_next_tokens padded_def)
next
  fix c assume c: "c < ncols batch" and nz: "cell batch r c \<noteq> 0"
  show "cell (generate eng batch max_length stop_tokens) r c = cell batch r c"
    unfolding run_final
    by (rule run_keeps [OF ws r c nz]) simp
qed

theorem generate_keeps_nonzero_witness:
  "well_shaped example_batch
   \<and> (0::nat) < length (rows example_batch)
   \<and> cell example_batch 0 1 = 6
   \<and> cell (ids_after (passes (generate_run example_engine example_batch 3 [12]) ! 0)) 0 1 = 6
   \<and> cell example_batch 0 2 = 0
   \<and> cell (ids_after (passes (generate_run example_engine example_batch 3 [12]) ! 1)) 0 2 = 11
   \<and> cell (generate example_engine example_batch 3 [12]) 0 1 = 6"
proof -
  have ws: "well_shaped example_batch"
    by (simp add: example_batch_def well_shaped_def)
  have r: "0 < length (rows example_batch)"
    by (simp add: example_batch_def)
  have run: "generate_run example_engine \<lparr>ncols = 3, rows = [[5, 6, 0], [7, 0, 0]]\<rparr> 3 [12] =
     \<lparr>final_ids = \<lparr>ncols = 3, rows = [[5, 6, 11], [7, 2, 12]]\<rparr>,
      passes =
        [\<lparr>column = 1, tokens = [1, 2],
          ids_after = \<lparr>ncols = 3, rows = [[5, 6, 0], [7, 2, 0]]\<rparr>\<rparr>,
         \<lparr>column = 2, tokens = [11, 12],
          ids_after = \<lparr>ncols = 3, rows = [[5, 6, 11], [7, 2, 12]]\<rparr>\<rparr>],
      broke = True\<rparr>"
    using example_run by (simp add: example_batch_def)
  show ?thesis
    using ws r generate_keeps_nonzero [OF ws r, of example_engine 3 "[12]"]
    by (simp add: run cell_def example_batch_def generate_def)
qed

subsection \<open>The handler of the entry point\<close>












end
